theory Spec2Isabelle
  imports Main "HOL-Library.Word"
begin

section \<open>Data model (type.go)\<close>

text \<open>
  \<^verbatim>\<open>type CardType int\<close> with its seven constants. Only the six issuer values are ever
  stored in a PAN; the two fence values \<^verbatim>\<open>beginKnownCardType\<close> and
  \<^verbatim>\<open>endKnownCardType\<close> are used by \<^verbatim>\<open>asCardType\<close> alone and are not modelled.
\<close>

datatype CardType =
    UnknownCardType
  | VISACard
  | MasterCard
  | JCBCard
  | AmericanExpress
  | UnionPay

text \<open>
  \<^verbatim>\<open>type ErrPANFormat string\<close>: five distinct string constants, compared by identity.
  A Go \<^verbatim>\<open>error\<close> result is modelled as \<open>ErrPANFormat option\<close>, \<open>None\<close> being \<^verbatim>\<open>nil\<close>;
  a constructor's \<^verbatim>\<open>(ret Info, err error)\<close> as \<open>ErrPANFormat + info\<close>, since the source
  returns a nil \<^verbatim>\<open>Info\<close> whenever it returns an error.
\<close>

datatype ErrPANFormat =
    ErrSection
  | ErrRaw
  | ErrMasked
  | ErrValidateMasked
  | ErrValidate

text \<open>Run-time panics of Go that the accessors and \<^verbatim>\<open>Validate\<close> can reach.\<close>

datatype panic = IndexOutOfRange | SliceBoundsOutOfRange

text \<open>
  Go's \<^verbatim>\<open>[4]string\<close>: a fixed array of four strings. A Go string is a byte sequence and
  \<^verbatim>\<open>len\<close> counts bytes, as \<open>length\<close> does on \<open>string\<close>.
\<close>

datatype 'a array4 = Array4 (at0: 'a) (at1: 'a) (at2: 'a) (at3: 'a)

text \<open>\<^verbatim>\<open>a[:]\<close>, the slice of the whole array.\<close>

definition slice_all :: "'a array4 \<Rightarrow> 'a list" where
  "slice_all a = [at0 a, at1 a, at2 a, at3 a]"

record info =
  pan :: "string array4"
  "typ" :: CardType

section \<open>Library functions of Go used by the package\<close>

subsection \<open>Package strings\<close>

text \<open>\<^verbatim>\<open>strings.Join(elems, sep)\<close>.\<close>

fun Join :: "string list \<Rightarrow> string \<Rightarrow> string" where
  "Join [] sep = []"
| "Join [x] sep = x"
| "Join (x # y # ys) sep = x @ sep @ Join (y # ys) sep"

text \<open>\<^verbatim>\<open>strings.Repeat(s, count)\<close> for a count that is not negative.\<close>

definition Repeat :: "string \<Rightarrow> nat \<Rightarrow> string" where
  "Repeat s n = concat (replicate n s)"

text \<open>
  \<^verbatim>\<open>strings.Index(s, substr)\<close>: the index of the first instance of \<open>substr\<close> in \<open>s\<close>,
  or \<open>-1\<close> when there is none.
\<close>

definition Index :: "string \<Rightarrow> string \<Rightarrow> int" where
  "Index s substr =
     (case find (\<lambda>k. take (length substr) (drop k s) = substr) [0 ..< Suc (length s)] of
        None \<Rightarrow> - 1
      | Some k \<Rightarrow> int k)"

text \<open>
  \<^verbatim>\<open>strings.Split(s, sep)\<close> for a separator of one byte: the pieces between the
  separators, in order; a string without separator is the only piece, the empty string
  included. \<open>cur\<close> collects the bytes of the piece being read.
\<close>

fun Split_from :: "char \<Rightarrow> string \<Rightarrow> string \<Rightarrow> string list" where
  "Split_from sep cur [] = [cur]"
| "Split_from sep cur (c # cs) =
     (if c = sep then cur # Split_from sep [] cs else Split_from sep (cur @ [c]) cs)"

definition Split :: "string \<Rightarrow> char \<Rightarrow> string list" where
  "Split s sep = Split_from sep [] s"

text \<open>
  \<^verbatim>\<open>s[lo:]\<close> and \<^verbatim>\<open>s[:hi]\<close> on a string: Go panics when the bound exceeds the length.
\<close>

definition slice_from :: "string \<Rightarrow> nat \<Rightarrow> panic + string" where
  "slice_from s lo = (if length s < lo then Inl SliceBoundsOutOfRange else Inr (drop lo s))"

definition slice_to :: "string \<Rightarrow> nat \<Rightarrow> panic + string" where
  "slice_to s hi = (if length s < hi then Inl SliceBoundsOutOfRange else Inr (take hi s))"

subsection \<open>Package regexp\<close>

text \<open>
  The fragment of RE2 syntax that the six patterns of the package use: the anchors
  \<^verbatim>\<open>^\<close> and \<^verbatim>\<open>$\<close> (without the multi-line flag: begin and end of the text), a literal
  byte, a character class given by its ranges, concatenation, alternation and the
  bounded repetition \<^verbatim>\<open>r{lo,hi}\<close>.

  Go matches on code points decoded from UTF-8, the model on bytes. Every class and
  literal of the six patterns is ASCII, and every pattern is anchored at the start of the
  text, so a byte above 127 fails to match in both: the two agree on every byte string.
\<close>

datatype regex =
    Eps
  | Bol
  | Eol
  | Lit char
  | Cls "(char \<times> char) list"
  | Cat regex regex
  | Alt regex regex
  | Rep regex nat nat

definition in_class :: "(char \<times> char) list \<Rightarrow> char \<Rightarrow> bool" where
  "in_class rs c =
     list_ex (\<lambda>r. (of_char (fst r) :: nat) \<le> of_char c \<and> (of_char c :: nat) \<le> of_char (snd r)) rs"

text \<open>
  \<open>step r (p, s)\<close>: the matcher stands at offset \<open>p\<close> of the text with \<open>s\<close> still to
  read; the result lists every state in which a match of \<open>r\<close> starting here can end.
  \<open>weight\<close> is the measure of its recursion: a repetition unfolds \<open>hi\<close> times.
\<close>

fun weight :: "regex \<Rightarrow> nat" where
  "weight (Cat a b) = Suc (weight a + weight b)"
| "weight (Alt a b) = Suc (weight a + weight b)"
| "weight (Rep r lo hi) = Suc (weight r + hi)"
| "weight r = 0"

function (sequential) step :: "regex \<Rightarrow> nat \<times> string \<Rightarrow> (nat \<times> string) list" where
  "step Eps st = [st]"
| "step Bol (p, s) = (if p = 0 then [(p, s)] else [])"
| "step Eol (p, s) = (if s = [] then [(p, s)] else [])"
| "step (Lit c) (p, s) =
     (case s of [] \<Rightarrow> [] | x # xs \<Rightarrow> if x = c then [(Suc p, xs)] else [])"
| "step (Cls rs) (p, s) =
     (case s of [] \<Rightarrow> [] | x # xs \<Rightarrow> if in_class rs x then [(Suc p, xs)] else [])"
| "step (Cat a b) st = concat (map (step b) (step a st))"
| "step (Alt a b) st = step a st @ step b st"
| "step (Rep r lo 0) st = (if lo = 0 then [st] else [])"
| "step (Rep r lo (Suc hi)) st =
     (if lo = 0 then [st] else []) @ concat (map (step (Rep r (lo - 1) hi)) (step r st))"
  by pat_completeness auto
termination
  by (relation "measure (\<lambda>(r, st). weight r)") auto

text \<open>
  \<^verbatim>\<open>(*Regexp).MatchString(s)\<close>: whether the text contains any match, that is, whether a
  match starts at some offset \<open>k\<close> of the text.
\<close>

definition MatchString :: "regex \<Rightarrow> string \<Rightarrow> bool" where
  "MatchString re s = list_ex (\<lambda>k. step re (k, drop k s) \<noteq> []) [0 ..< Suc (length s)]"

text \<open>Concatenation and alternation of several parts, as a pattern writes them.\<close>

fun cats :: "regex list \<Rightarrow> regex" where
  "cats [] = Eps"
| "cats [r] = r"
| "cats (r # rs) = Cat r (cats rs)"

fun alts :: "regex list \<Rightarrow> regex" where
  "alts [] = Eps"
| "alts [r] = r"
| "alts (r # rs) = Alt r (alts rs)"

text \<open>A class of one range, \<^verbatim>\<open>[a-b]\<close>.\<close>

definition rng :: "char \<Rightarrow> char \<Rightarrow> regex" where
  "rng a b = Cls [(a, b)]"

section \<open>Issuer classification (info_func.go, init and cardType)\<close>

text \<open>
  The package variables that \<^verbatim>\<open>init\<close> sets once; nothing assigns them afterwards.
\<close>

text \<open>\<^verbatim>\<open>"^4"\<close>\<close>

definition reVISA :: regex where
  "reVISA = cats [Bol, Lit CHR ''4'']"

text \<open>\<^verbatim>\<open>"^(5[1-5]|222[1-9]|22[3-9][0-9]|27[01][0-9]|2720)"\<close>\<close>

definition reMaster :: regex where
  "reMaster = cats [Bol, alts [
     cats [Lit CHR ''5'', rng CHR ''1'' CHR ''5''],
     cats [Lit CHR ''2'', Lit CHR ''2'', Lit CHR ''2'', rng CHR ''1'' CHR ''9''],
     cats [Lit CHR ''2'', Lit CHR ''2'', rng CHR ''3'' CHR ''9'', rng CHR ''0'' CHR ''9''],
     cats [Lit CHR ''2'', Lit CHR ''7'', Cls [(CHR ''0'', CHR ''0''), (CHR ''1'', CHR ''1'')],
           rng CHR ''0'' CHR ''9''],
     cats [Lit CHR ''2'', Lit CHR ''7'', Lit CHR ''2'', Lit CHR ''0'']]]"

text \<open>\<^verbatim>\<open>"^3[47]"\<close>\<close>

definition reAmericanExpress :: regex where
  "reAmericanExpress =
     cats [Bol, Lit CHR ''3'', Cls [(CHR ''4'', CHR ''4''), (CHR ''7'', CHR ''7'')]]"

text \<open>\<^verbatim>\<open>"^35(2[89]|[3-8][0-9])"\<close>\<close>

definition reJCB :: regex where
  "reJCB = cats [Bol, Lit CHR ''3'', Lit CHR ''5'', alts [
     cats [Lit CHR ''2'', Cls [(CHR ''8'', CHR ''8''), (CHR ''9'', CHR ''9'')]],
     cats [rng CHR ''3'' CHR ''8'', rng CHR ''0'' CHR ''9'']]]"

text \<open>\<^verbatim>\<open>"^(62|81)"\<close>\<close>

definition reUnionPay :: regex where
  "reUnionPay = cats [Bol, alts [
     cats [Lit CHR ''6'', Lit CHR ''2''],
     cats [Lit CHR ''8'', Lit CHR ''1'']]]"

text \<open>\<^verbatim>\<open>"^[0-9*]{0,4}$"\<close>\<close>

definition reSlicedPAN :: regex where
  "reSlicedPAN =
     cats [Bol, Rep (Cls [(CHR ''0'', CHR ''9''), (CHR ''*'', CHR ''*'')]) 0 4, Eol]"

text \<open>\<^verbatim>\<open>cardType\<close>: the first case of the switch that matches section 0 decides.\<close>

definition cardType :: "string array4 \<Rightarrow> CardType" where
  "cardType arr =
     (if MatchString reVISA (at0 arr) then VISACard
      else if MatchString reMaster (at0 arr) then MasterCard
      else if MatchString reAmericanExpress (at0 arr) then AmericanExpress
      else if MatchString reJCB (at0 arr) then JCBCard
      else if MatchString reUnionPay (at0 arr) then UnionPay
      else UnknownCardType)"

section \<open>Accessors (info_func.go)\<close>

definition CardType_of :: "info \<Rightarrow> CardType" where
  "CardType_of i = typ i"

definition Checksum :: "info \<Rightarrow> panic + string" where
  "Checksum i = slice_from (at3 (pan i)) 3"

definition Last4 :: "info \<Rightarrow> string" where
  "Last4 i = at3 (pan i)"

definition First6 :: "info \<Rightarrow> panic + string" where
  "First6 i =
     (case slice_to (at1 (pan i)) 2 of
        Inl e \<Rightarrow> Inl e
      | Inr t \<Rightarrow> Inr (at0 (pan i) @ t))"

definition FullLast4 :: "info \<Rightarrow> string" where
  "FullLast4 i = ''****-****-****-'' @ at3 (pan i)"

definition FullFirst6 :: "info \<Rightarrow> panic + string" where
  "FullFirst6 i =
     (case slice_to (at1 (pan i)) 2 of
        Inl e \<Rightarrow> Inl e
      | Inr t \<Rightarrow> Inr (at0 (pan i) @ ''-'' @ t @ ''**-****-****''))"

definition RawMasked :: "info \<Rightarrow> panic + string" where
  "RawMasked i =
     (case First6 i of
        Inl e \<Rightarrow> Inl e
      | Inr f \<Rightarrow> Inr (f @ ''******'' @ Last4 i))"

definition Masked :: "info \<Rightarrow> panic + string" where
  "Masked i =
     (case slice_to (at1 (pan i)) 2 of
        Inl e \<Rightarrow> Inl e
      | Inr t \<Rightarrow> Inr (at0 (pan i) @ ''-'' @ t @ ''**-****-'' @ at3 (pan i)))"

definition RawPAN :: "info \<Rightarrow> string" where
  "RawPAN i = Join (slice_all (pan i)) ''''"

definition PAN :: "info \<Rightarrow> string" where
  "PAN i = Join (slice_all (pan i)) ''-''"

section \<open>Validation (info_func.go, Validate)\<close>

text \<open>
  The body of the \<^verbatim>\<open>range\<close> loop over the first \<open>l - 1\<close> bytes. \<open>c\<close> and \<open>sum\<close> (here
  \<open>acc\<close>) are Go bytes: the arithmetic is that of \<open>8 word\<close>, wrap-around included.
\<close>

fun Validate_loop :: "nat \<Rightarrow> 8 word \<Rightarrow> string \<Rightarrow> 8 word" where
  "Validate_loop idx acc [] = acc"
| "Validate_loop idx acc (b # bs) =
     (let x = (if idx mod 2 = 0 then 1 else 2 :: 8 word);
          c = of_char b - of_char CHR ''0'';
          c = c * x;
          c = (if 9 < c then c - 9 else c)
      in Validate_loop (Suc idx) (acc + c) bs)"

text \<open>
  \<^verbatim>\<open>pan[l-1]\<close> panics on an empty string; the model returns that panic as a value.
\<close>

definition Validate :: "info \<Rightarrow> panic + ErrPANFormat option" where
  "Validate i =
     (let raw = RawPAN i in
      if Index raw ''*'' \<noteq> - 1 then Inr (Some ErrValidateMasked)
      else
        let l = length raw in
        if l = 0 then Inl IndexOutOfRange
        else
          let checksum = (of_char (raw ! (l - 1)) - of_char CHR ''0'' :: 8 word);
              acc = Validate_loop 0 0 (take (l - 1) raw)
          in if (checksum + acc) mod 10 \<noteq> 0 then Inr (Some ErrValidate) else Inr None)"

section \<open>Constructors (info_func.go)\<close>

text \<open>The first loop of \<^verbatim>\<open>FromSlice\<close>: append empty strings until there are four.\<close>

function FromSlice_pad :: "string list \<Rightarrow> string list" where
  "FromSlice_pad arr = (if length arr < 4 then FromSlice_pad (arr @ [[]]) else arr)"
  by pat_completeness auto
termination
  by (relation "measure (\<lambda>arr. 4 - length arr)") auto

declare FromSlice_pad.simps [simp del]

text \<open>
  The second loop, from index \<open>idx\<close> on: a section that the pattern refuses ends the
  loop with \<^verbatim>\<open>ErrSection\<close>; a short section is overwritten in place by its padded form.
\<close>

function FromSlice_check :: "string list \<Rightarrow> nat \<Rightarrow> ErrPANFormat + string list" where
  "FromSlice_check arr idx =
     (if idx < length arr then
        (let v = arr ! idx in
         if \<not> MatchString reSlicedPAN v then Inl ErrSection
         else FromSlice_check
                (if length v < 4 then arr[idx := v @ Repeat ''*'' (4 - length v)] else arr)
                (Suc idx))
      else Inr arr)"
  by pat_completeness auto
termination
  by (relation "measure (\<lambda>(arr, idx). length arr - idx)") auto

declare FromSlice_check.simps [simp del]

text \<open>
  After the first loop the slice has exactly four entries, so the four reads
  \<^verbatim>\<open>arr[0]\<close> .. \<^verbatim>\<open>arr[3]\<close> are in range. The assignments \<^verbatim>\<open>arr[idx] = ...\<close> of
  the second loop write into the slice the caller passed (or into the copy that
  \<^verbatim>\<open>append\<close> made); the model returns the updated list to \<^verbatim>\<open>FromSlice\<close> only, which
  copies the four strings into the array of the new PAN.
\<close>

definition FromSlice :: "string list \<Rightarrow> ErrPANFormat + info" where
  "FromSlice arr =
     (if 4 < length arr then Inl ErrSection
      else
        (case FromSlice_check (FromSlice_pad arr) 0 of
           Inl e \<Rightarrow> Inl e
         | Inr arr' \<Rightarrow>
             (let p = Array4 (arr' ! 0) (arr' ! 1) (arr' ! 2) (arr' ! 3);
                  t = cardType p
              in Inr \<lparr>pan = p, typ = t\<rparr>)))"

definition FromDashed :: "string \<Rightarrow> ErrPANFormat + info" where
  "FromDashed str = FromSlice (Split str CHR ''-'')"

definition FromPart :: "string list \<Rightarrow> ErrPANFormat + info" where
  "FromPart parts = FromSlice parts"

text \<open>
  \<^verbatim>\<open>s[lo:hi]\<close> where the caller has checked the length, so that the bounds are in range.
\<close>

definition substr :: "string \<Rightarrow> nat \<Rightarrow> nat \<Rightarrow> string" where
  "substr s lo hi = take (hi - lo) (drop lo s)"

definition FromRaw :: "string \<Rightarrow> ErrPANFormat + info" where
  "FromRaw str =
     (if length str \<noteq> 16 then Inl ErrRaw
      else FromPart [substr str 0 4, substr str 4 8, substr str 8 12, substr str 12 16])"

definition FromMasked :: "string \<Rightarrow> string \<Rightarrow> ErrPANFormat + info" where
  "FromMasked first6 last4 =
     (if length first6 \<noteq> 6 \<or> length last4 \<noteq> 4 then Inl ErrMasked
      else FromPart [substr first6 0 4, substr first6 4 6 @ ''**'', ''****'', last4])"

text \<open>A call of one of the five constructors, and what it returns.\<close>

datatype call =
    CallFromSlice "string list"
  | CallFromPart "string list"
  | CallFromDashed string
  | CallFromRaw string
  | CallFromMasked string string

fun construct :: "call \<Rightarrow> ErrPANFormat + info" where
  "construct (CallFromSlice arr) = FromSlice arr"
| "construct (CallFromPart parts) = FromPart parts"
| "construct (CallFromDashed str) = FromDashed str"
| "construct (CallFromRaw str) = FromRaw str"
| "construct (CallFromMasked first6 last4) = FromMasked first6 last4"

section \<open>The properties, as the specification words them\<close>

text \<open>The alphabet of a section: a decimal digit or the mask character.\<close>

definition is_digit :: "char \<Rightarrow> bool" where
  "is_digit c = ((48 :: nat) \<le> of_char c \<and> (of_char c :: nat) \<le> 57)"

definition pan_char :: "char \<Rightarrow> bool" where
  "pan_char c = (is_digit c \<or> c = CHR ''*'')"

text \<open>
  The invariant of a PAN: four sections, each of length four, each over the alphabet.
\<close>

definition pan_inv :: "info \<Rightarrow> bool" where
  "pan_inv i =
     (length (slice_all (pan i)) = 4 \<and>
      list_all (\<lambda>s. length s = 4 \<and> list_all pan_char s) (slice_all (pan i)))"

text \<open>
  The Luhn sum as the specification describes it, on natural numbers: the digit at an
  even index counts once, the digit at an odd index is doubled and, when the double
  exceeds 9, reduced by 9.
\<close>

definition digit_val :: "char \<Rightarrow> nat" where
  "digit_val c = of_char c - 48"

definition spec_luhn_term :: "nat \<Rightarrow> nat \<Rightarrow> nat" where
  "spec_luhn_term idx d =
     (let m = (if idx mod 2 = 0 then 1 else 2) * d in if 9 < m then m - 9 else m)"

definition spec_luhn_sum :: "nat list \<Rightarrow> nat" where
  "spec_luhn_sum ds = sum_list (map (\<lambda>idx. spec_luhn_term idx (ds ! idx)) [0 ..< length ds])"

definition spec_Validate :: "string \<Rightarrow> ErrPANFormat option" where
  "spec_Validate raw =
     (if CHR ''*'' \<in> set raw then Some ErrValidateMasked
      else if (spec_luhn_sum (map digit_val (butlast raw)) + digit_val (last raw)) mod 10 = 0
        then None
      else Some ErrValidate)"

text \<open>
  The section validator in the specification's words: a fragment is acceptable when it
  has at most four characters, all of the alphabet; it is then padded on the right with
  mask characters to length four. A list of at most four fragments is padded with empty
  fragments to four entries before each is padded.
\<close>

definition spec_section_ok :: "string \<Rightarrow> bool" where
  "spec_section_ok v = (length v \<le> 4 \<and> list_all pan_char v)"

definition spec_pad :: "string \<Rightarrow> string" where
  "spec_pad v = v @ replicate (4 - length v) CHR ''*''"

definition spec_sections :: "string list \<Rightarrow> string list" where
  "spec_sections arr = map spec_pad (arr @ replicate (4 - length arr) [])"

section \<open>Pattern matching\<close>

lemma step_Bol_Cat: "step (Cat Bol r) (k, t) = (if k = 0 then step r (0, t) else [])"
  by simp

lemma MatchString_anchored: "MatchString (Cat Bol r) s = (step r (0, s) \<noteq> [])"
proof -
  have "MatchString (Cat Bol r) s = (\<exists>k \<in> set [0 ..< Suc (length s)]. k = 0 \<and> step r (0, s) \<noteq> [])"
    unfolding MatchString_def list_ex_iff
    by (rule bex_cong) (auto simp: step_Bol_Cat)
  then show ?thesis by auto
qed

lemma in_class_pan_char:
  "in_class [(CHR ''0'', CHR ''9''), (CHR ''*'', CHR ''*'')] c = pan_char c"
proof -
  have "((42::nat) \<le> of_char c \<and> (of_char c :: nat) \<le> 42) = (c = CHR ''*'')"
  proof -
    have "(of_char c = (of_char CHR ''*'' :: nat)) = (c = CHR ''*'')"
      by (rule of_char_eq_iff)
    then show ?thesis by auto
  qed
  then show ?thesis
    by (simp add: in_class_def pan_char_def is_digit_def)
qed

lemma step_Rep_Cls_end:
  "(\<exists>st \<in> set (step (Rep (Cls rs) lo hi) (p, s)). snd st = []) =
     (lo \<le> length s \<and> length s \<le> hi \<and> list_all (in_class rs) s)"
proof (induction hi arbitrary: lo p s)
  case 0
  then show ?case by auto
next
  case (Suc hi)
  show ?case
  proof (cases s)
    case Nil
    then show ?thesis by auto
  next
    case (Cons x xs)
    have "(\<exists>st \<in> set (step (Rep (Cls rs) lo (Suc hi)) (p, x # xs)). snd st = []) =
          (in_class rs x \<and> (\<exists>st \<in> set (step (Rep (Cls rs) (lo - 1) hi) (Suc p, xs)). snd st = []))"
      by auto
    also have "\<dots> = (in_class rs x \<and> lo - 1 \<le> length xs \<and> length xs \<le> hi \<and> list_all (in_class rs) xs)"
      by (simp only: Suc.IH)
    also have "\<dots> = (lo \<le> length (x # xs) \<and> length (x # xs) \<le> Suc hi \<and> list_all (in_class rs) (x # xs))"
      by auto
    finally show ?thesis using Cons by simp
  qed
qed

lemma step_Eol_iff: "(step Eol st \<noteq> []) = (snd st = [])"
  by (cases st) simp

lemma step_Cat_Eol: "(step (Cat r Eol) st \<noteq> []) = (\<exists>x \<in> set (step r st). snd x = [])"
  by (simp add: step_Eol_iff del: step.simps(3))

lemma MatchString_reSlicedPAN:
  "MatchString reSlicedPAN v = (length v \<le> 4 \<and> list_all pan_char v)"
proof -
  let ?cls = "[(CHR ''0'', CHR ''9''), (CHR ''*'', CHR ''*'')]"
  have "MatchString reSlicedPAN v = (step (Cat (Rep (Cls ?cls) 0 4) Eol) (0, v) \<noteq> [])"
    by (simp add: reSlicedPAN_def MatchString_anchored)
  also have "\<dots> = (\<exists>st \<in> set (step (Rep (Cls ?cls) 0 4) (0, v)). snd st = [])"
    by (rule step_Cat_Eol)
  also have "\<dots> = (length v \<le> 4 \<and> list_all (in_class ?cls) v)"
    by (simp only: step_Rep_Cls_end) simp
  also have "\<dots> = (length v \<le> 4 \<and> list_all pan_char v)"
    by (simp only: in_class_pan_char [abs_def])
  finally show ?thesis .
qed

lemma Repeat_star: "Repeat ''*'' n = replicate n CHR ''*''"
  by (induction n) (simp_all add: Repeat_def)

lemma FromSlice_pad_eq: "FromSlice_pad arr = arr @ replicate (4 - length arr) []"
proof (induction arr rule: FromSlice_pad.induct)
  case (1 arr)
  show ?case
  proof (cases "length arr < 4")
    case True
    then have "FromSlice_pad arr = FromSlice_pad (arr @ [[]])"
      by (subst FromSlice_pad.simps) simp
    also have "\<dots> = (arr @ [[]]) @ replicate (4 - length (arr @ [[]])) []"
      using True by (rule "1.IH")
    also have "\<dots> = arr @ replicate (Suc (3 - length arr)) []"
      by simp
    also have "Suc (3 - length arr) = 4 - length arr"
      using True by arith
    finally show ?thesis .
  next
    case False
    then show ?thesis by (subst FromSlice_pad.simps) simp
  qed
qed

lemma FromSlice_check_eq:
  "idx \<le> length arr \<Longrightarrow>
   FromSlice_check arr idx =
     (if list_all spec_section_ok (drop idx arr)
      then Inr (take idx arr @ map spec_pad (drop idx arr))
      else Inl ErrSection)"
proof (induction arr idx rule: FromSlice_check.induct)
  case (1 arr idx)
  show ?case
  proof (cases "idx < length arr")
    case False
    with "1.prems" show ?thesis by (subst FromSlice_check.simps) simp
  next
    case True
    define v where "v = arr ! idx"
    define arr' where "arr' = (if length v < 4 then arr[idx := v @ Repeat ''*'' (4 - length v)] else arr)"
    have dr: "drop idx arr = v # drop (Suc idx) arr"
      using True by (simp add: v_def Cons_nth_drop_Suc)
    show ?thesis
    proof (cases "MatchString reSlicedPAN v")
      case False
      then have "FromSlice_check arr idx = Inl ErrSection"
        using True by (subst FromSlice_check.simps) (simp add: v_def)
      moreover have "\<not> spec_section_ok v"
        using False by (simp add: MatchString_reSlicedPAN spec_section_ok_def)
      ultimately show ?thesis by (simp add: dr)
    next
      case ok: True
      then have sok: "spec_section_ok v"
        by (simp add: MatchString_reSlicedPAN spec_section_ok_def)
      have len': "length arr' = length arr"
        by (simp add: arr'_def)
      have upd: "arr' = arr[idx := spec_pad v]"
      proof (cases "length v < 4")
        case True
        then show ?thesis by (simp add: arr'_def spec_pad_def Repeat_star)
      next
        case False
        then have "spec_pad v = v" by (simp add: spec_pad_def)
        with False show ?thesis by (simp add: arr'_def v_def)
      qed
      have "FromSlice_check arr idx = FromSlice_check arr' (Suc idx)"
        using True ok by (subst FromSlice_check.simps) (simp add: v_def arr'_def Let_def)
      also have "\<dots> =
        (if list_all spec_section_ok (drop (Suc idx) arr')
         then Inr (take (Suc idx) arr' @ map spec_pad (drop (Suc idx) arr'))
         else Inl ErrSection)"
        using True ok "1.IH" [of v] len' by (simp add: v_def arr'_def)
      also have "drop (Suc idx) arr' = drop (Suc idx) arr"
        by (simp add: upd)
      also have "take (Suc idx) arr' = take idx arr @ [spec_pad v]"
        using True by (simp add: upd take_Suc_conv_app_nth)
      finally show ?thesis using sok by (simp add: dr)
    qed
  qed
qed

lemma list4_nth: "length xs = 4 \<Longrightarrow> [xs ! 0, xs ! 1, xs ! 2, xs ! 3] = xs"
  by (rule nth_equalityI) (auto simp: nth_Cons' numeral_eq_Suc less_Suc_eq)

lemma length_spec_sections: "length arr \<le> 4 \<Longrightarrow> length (spec_sections arr) = 4"
  by (simp add: spec_sections_def)

lemma spec_section_ok_replicate: "list_all spec_section_ok (replicate n [])"
  by (induction n) (simp_all add: spec_section_ok_def)

lemma list_all_map_mono:
  "list_all P xs \<Longrightarrow> (\<And>x. P x \<Longrightarrow> Q (f x)) \<Longrightarrow> list_all Q (map f xs)"
  by (induction xs) auto

lemma FromSlice_eq:
  "FromSlice arr =
     (if length arr \<le> 4 \<and> list_all spec_section_ok arr
      then Inr \<lparr>pan = Array4 (spec_sections arr ! 0) (spec_sections arr ! 1)
                               (spec_sections arr ! 2) (spec_sections arr ! 3),
                 typ = cardType (Array4 (spec_sections arr ! 0) (spec_sections arr ! 1)
                               (spec_sections arr ! 2) (spec_sections arr ! 3))\<rparr>
      else Inl ErrSection)"
proof -
  have "FromSlice_check (FromSlice_pad arr) 0 =
          (if list_all spec_section_ok arr then Inr (spec_sections arr) else Inl ErrSection)"
    by (simp add: FromSlice_check_eq FromSlice_pad_eq spec_section_ok_replicate spec_sections_def)
  then show ?thesis
    by (simp add: FromSlice_def Let_def not_less)
qed

lemma FromSlice_Inr:
  assumes "FromSlice arr = Inr p"
  shows "slice_all (pan p) = spec_sections arr" and "typ p = cardType (pan p)"
    and "length arr \<le> 4" and "list_all spec_section_ok arr"
proof -
  from assms show c: "length arr \<le> 4" and "list_all spec_section_ok arr"
    by (simp_all add: FromSlice_eq split: if_splits)
  from assms have p: "p = \<lparr>pan = Array4 (spec_sections arr ! 0) (spec_sections arr ! 1)
                               (spec_sections arr ! 2) (spec_sections arr ! 3),
                 typ = cardType (Array4 (spec_sections arr ! 0) (spec_sections arr ! 1)
                               (spec_sections arr ! 2) (spec_sections arr ! 3))\<rparr>"
    by (simp add: FromSlice_eq split: if_splits)
  show "typ p = cardType (pan p)"
    by (subst (1 2) p) simp
  have "slice_all (pan p) = [spec_sections arr ! 0, spec_sections arr ! 1,
                             spec_sections arr ! 2, spec_sections arr ! 3]"
    by (subst p) (simp add: slice_all_def)
  also have "\<dots> = spec_sections arr"
    using c by (intro list4_nth length_spec_sections)
  finally show "slice_all (pan p) = spec_sections arr" .
qed

lemma spec_pad_props:
  "spec_section_ok v \<Longrightarrow> length (spec_pad v) = 4 \<and> list_all pan_char (spec_pad v)"
  by (auto simp: spec_section_ok_def spec_pad_def pan_char_def list_all_iff)

lemma spec_sections_inv:
  assumes "length arr \<le> 4" and "list_all spec_section_ok arr"
  shows "list_all (\<lambda>s. length s = 4 \<and> list_all pan_char s) (spec_sections arr)"
proof -
  have "list_all spec_section_ok (arr @ replicate (4 - length arr) [])"
    using assms(2) by (simp add: spec_section_ok_replicate)
  then show ?thesis
    unfolding spec_sections_def by (rule list_all_map_mono) (rule spec_pad_props)
qed

lemma FromSlice_inv: "FromSlice arr = Inr p \<Longrightarrow> pan_inv p"
  using FromSlice_Inr [of arr p] spec_sections_inv [of arr] length_spec_sections [of arr]
  by (simp add: pan_inv_def)

lemma construct_FromSlice: "construct c = Inr p \<Longrightarrow> \<exists>arr. FromSlice arr = Inr p"
  by (cases c) (auto simp: FromPart_def FromDashed_def FromRaw_def FromMasked_def split: if_splits)

lemma construct_inv: "construct c = Inr p \<Longrightarrow> pan_inv p \<and> typ p = cardType (pan p)"
  using construct_FromSlice [of c p] FromSlice_inv FromSlice_Inr(2) by blast

section \<open>The constructors on well-formed input\<close>

lemma spec_pad_full: "length v = 4 \<Longrightarrow> spec_pad v = v"
  by (simp add: spec_pad_def)

lemma spec_sections_full:
  "length a = 4 \<Longrightarrow> length b = 4 \<Longrightarrow> length c = 4 \<Longrightarrow> length d = 4 \<Longrightarrow>
   spec_sections [a, b, c, d] = [a, b, c, d]"
  by (simp add: spec_sections_def spec_pad_full)

lemma FromSlice_full:
  assumes "length a = 4" "length b = 4" "length c = 4" "length d = 4"
  shows "FromSlice [a, b, c, d] =
     (if list_all pan_char (a @ b @ c @ d)
      then Inr \<lparr>pan = Array4 a b c d, typ = cardType (Array4 a b c d)\<rparr>
      else Inl ErrSection)"
  using assms by (simp add: FromSlice_eq spec_sections_full spec_section_ok_def)

lemma quarters:
  "take 4 s @ take 4 (drop 4 s) @ take 4 (drop 8 s) @ drop 12 s = s"
proof -
  have a: "drop 12 s = drop 4 (drop 8 s)" and b: "drop 8 s = drop 4 (drop 4 s)"
    by simp_all
  have "take 4 (drop 8 s) @ drop 12 s = drop 8 s"
    by (simp only: a append_take_drop_id)
  then have "take 4 (drop 4 s) @ take 4 (drop 8 s) @ drop 12 s = drop 4 s"
    by (simp only: b append_take_drop_id)
  then show ?thesis
    by (simp only: append_take_drop_id)
qed

lemma FromRaw_eq:
  "FromRaw s =
     (if length s \<noteq> 16 then Inl ErrRaw
      else if list_all pan_char s
      then Inr \<lparr>pan = Array4 (take 4 s) (take 4 (drop 4 s)) (take 4 (drop 8 s)) (drop 12 s),
                 typ = cardType (Array4 (take 4 s) (take 4 (drop 4 s)) (take 4 (drop 8 s)) (drop 12 s))\<rparr>
      else Inl ErrSection)"
proof (cases "length s = 16")
  case False
  then show ?thesis by (simp add: FromRaw_def)
next
  case True
  have "FromRaw s = FromSlice [take 4 s, take 4 (drop 4 s), take 4 (drop 8 s), drop 12 s]"
    using True by (simp add: FromRaw_def FromPart_def substr_def)
  also have "\<dots> =
     (if list_all pan_char (take 4 s @ take 4 (drop 4 s) @ take 4 (drop 8 s) @ drop 12 s)
      then Inr \<lparr>pan = Array4 (take 4 s) (take 4 (drop 4 s)) (take 4 (drop 8 s)) (drop 12 s),
                 typ = cardType (Array4 (take 4 s) (take 4 (drop 4 s)) (take 4 (drop 8 s)) (drop 12 s))\<rparr>
      else Inl ErrSection)"
    using True by (intro FromSlice_full) simp_all
  finally show ?thesis using True by (simp only: quarters) simp
qed

lemma FromMasked_eq:
  "FromMasked first6 last4 =
     (if length first6 \<noteq> 6 \<or> length last4 \<noteq> 4 then Inl ErrMasked
      else if list_all pan_char (first6 @ last4)
      then Inr \<lparr>pan = Array4 (take 4 first6) (drop 4 first6 @ ''**'') ''****'' last4,
                 typ = cardType (Array4 (take 4 first6) (drop 4 first6 @ ''**'') ''****'' last4)\<rparr>
      else Inl ErrSection)"
proof (cases "length first6 \<noteq> 6 \<or> length last4 \<noteq> 4")
  case True
  then show ?thesis by (simp add: FromMasked_def)
next
  case False
  then have l: "length first6 = 6" "length last4 = 4" by simp_all
  have star: "pan_char CHR ''*''" by (simp add: pan_char_def)
  have split: "list_all pan_char first6 = (list_all pan_char (take 4 first6) \<and> list_all pan_char (drop 4 first6))"
    by (metis append_take_drop_id list_all_append)
  have "FromMasked first6 last4 = FromSlice [take 4 first6, drop 4 first6 @ ''**'', ''****'', last4]"
    using l by (simp add: FromMasked_def FromPart_def substr_def)
  also have "\<dots> =
     (if list_all pan_char (take 4 first6 @ (drop 4 first6 @ ''**'') @ ''****'' @ last4)
      then Inr \<lparr>pan = Array4 (take 4 first6) (drop 4 first6 @ ''**'') ''****'' last4,
                 typ = cardType (Array4 (take 4 first6) (drop 4 first6 @ ''**'') ''****'' last4)\<rparr>
      else Inl ErrSection)"
    using l by (intro FromSlice_full) simp_all
  also have "list_all pan_char (take 4 first6 @ (drop 4 first6 @ ''**'') @ ''****'' @ last4)
      = list_all pan_char (first6 @ last4)"
    using star split by simp
  finally show ?thesis using l by simp
qed

lemma Split_from_no_sep: "sep \<notin> set s \<Longrightarrow> Split_from sep cur s = [cur @ s]"
  by (induction s arbitrary: cur) auto

lemma Split_no_sep: "sep \<notin> set s \<Longrightarrow> Split s sep = [s]"
  by (simp add: Split_def Split_from_no_sep)

section \<open>The byte arithmetic of Validate\<close>

lemma take1_drop: "(take (Suc 0) (drop k s) = [c]) = (k < length s \<and> s ! k = c)"
proof (cases "k < length s")
  case True
  then have "drop k s = s ! k # drop (Suc k) s"
    by (simp add: Cons_nth_drop_Suc)
  with True show ?thesis by simp
next
  case False
  then show ?thesis by simp
qed

lemma Index_star: "(Index s ''*'' \<noteq> - 1) = (CHR ''*'' \<in> set s)"
proof -
  have "(Index s ''*'' \<noteq> - 1) = (find (\<lambda>k. take 1 (drop k s) = ''*'') [0 ..< Suc (length s)] \<noteq> None)"
    by (simp add: Index_def split: option.splits)
  also have "\<dots> = (\<exists>k < length s. s ! k = CHR ''*'')"
    by (auto simp: find_None_iff take1_drop)
  also have "\<dots> = (CHR ''*'' \<in> set s)"
    by (auto simp: in_set_conv_nth)
  finally show ?thesis .
qed

lemma unat_of_char: "unat (of_char b :: 8 word) = of_char b"
proof -
  have "unat (of_nat (of_char b) :: 8 word) = of_char b mod 2 ^ 8"
    by (simp only: unat_of_nat) simp
  then show ?thesis by (simp add: of_nat_of_char)
qed

lemma digit_byte:
  assumes "is_digit b"
  shows "unat (of_char b - of_char CHR ''0'' :: 8 word) = digit_val b" and "digit_val b \<le> 9"
proof -
  from assms have r: "(48::nat) \<le> of_char b" "(of_char b :: nat) \<le> 57"
    by (simp_all add: is_digit_def)
  have "(of_char CHR ''0'' :: 8 word) \<le> of_char b"
    using r by (simp add: word_le_nat_alt unat_of_char)
  then have "unat (of_char b - of_char CHR ''0'' :: 8 word) = unat (of_char b :: 8 word) - unat (of_char CHR ''0'' :: 8 word)"
    by (rule unat_sub)
  then show "unat (of_char b - of_char CHR ''0'' :: 8 word) = digit_val b"
    by (simp add: unat_of_char digit_val_def)
  show "digit_val b \<le> 9"
    using r by (simp add: digit_val_def)
qed

lemma Validate_loop_unat:
  "list_all is_digit bs \<Longrightarrow> unat acc + 9 * length bs < 256 \<Longrightarrow>
   unat (Validate_loop idx acc bs) =
     unat acc + sum_list (map (\<lambda>k. spec_luhn_term (idx + k) (digit_val (bs ! k))) [0 ..< length bs]) \<and>
   sum_list (map (\<lambda>k. spec_luhn_term (idx + k) (digit_val (bs ! k))) [0 ..< length bs])
     \<le> 9 * length bs"
proof (induction bs arbitrary: idx acc)
  case Nil
  then show ?case by simp
next
  case (Cons b bs)
  define c1 :: "8 word" where "c1 = of_char b - of_char CHR ''0''"
  define x :: "8 word" where "x = (if idx mod 2 = 0 then 1 else 2)"
  define c2 where "c2 = c1 * x"
  define c3 where "c3 = (if 9 < c2 then c2 - 9 else c2)"
  from Cons.prems have dig: "is_digit b" and rest: "list_all is_digit bs" by simp_all
  have u1: "unat c1 = digit_val b" and le9: "digit_val b \<le> 9"
    unfolding c1_def using dig by (rule digit_byte)+
  have u2: "unat c2 = (if idx mod 2 = 0 then 1 else 2) * digit_val b"
    using le9 by (simp add: c2_def x_def unat_word_ariths u1)
  have u3: "unat c3 = spec_luhn_term idx (digit_val b)" and le9': "unat c3 \<le> 9"
  proof -
    have lt: "(9 < c2) = (9 < unat c2)"
      by (simp add: word_less_nat_alt)
    have "unat (c2 - 9) = unat c2 - 9" if "9 < c2"
    proof -
      from that have "(9 :: 8 word) \<le> c2" by simp
      then have "unat (c2 - 9) = unat c2 - unat (9 :: 8 word)" by (rule unat_sub)
      then show ?thesis by simp
    qed
    then show "unat c3 = spec_luhn_term idx (digit_val b)"
      using lt by (simp add: c3_def spec_luhn_term_def u2 Let_def)
    then show "unat c3 \<le> 9"
      using le9 by (simp add: spec_luhn_term_def Let_def split: if_splits)
  qed
  have u4: "unat (acc + c3) = unat acc + unat c3"
    using Cons.prems(2) le9' by (simp add: unat_word_ariths)
  have step: "Validate_loop idx acc (b # bs) = Validate_loop (Suc idx) (acc + c3) bs"
    by (simp add: Let_def c3_def c2_def x_def c1_def)
  let ?S = "sum_list (map (\<lambda>k. spec_luhn_term (Suc idx + k) (digit_val (bs ! k))) [0 ..< length bs])"
  have ih: "unat (Validate_loop (Suc idx) (acc + c3) bs) = unat (acc + c3) + ?S \<and> ?S \<le> 9 * length bs"
    using rest Cons.prems(2) le9' by (intro Cons.IH) (simp_all add: u4)
  have idxs: "[0 ..< length (b # bs)] = 0 # map Suc [0 ..< length bs]"
    by (simp add: upt_conv_Cons map_Suc_upt del: upt_Suc)
  have sum: "sum_list (map (\<lambda>k. spec_luhn_term (idx + k) (digit_val ((b # bs) ! k))) [0 ..< length (b # bs)])
      = unat c3 + ?S"
    by (simp only: idxs u3) (simp add: comp_def)
  show ?case
    using ih le9' by (simp only: step sum u4) simp
qed

lemma word8_mod10: "((w :: 8 word) mod 10 \<noteq> 0) = (unat w mod 10 \<noteq> 0)"
proof -
  have "unat (w mod 10) = unat w mod unat (10 :: 8 word)"
    by (rule unat_mod)
  then show ?thesis
    by (simp add: unat_eq_0 [symmetric] del: unat_eq_0)
qed

lemma pan_inv_raw:
  assumes "pan_inv p"
  shows "length (RawPAN p) = 16" and "list_all pan_char (RawPAN p)"
proof -
  obtain a b c d where pn: "pan p = Array4 a b c d"
    by (cases "pan p")
  from assms pn show "length (RawPAN p) = 16" and "list_all pan_char (RawPAN p)"
    by (simp_all add: pan_inv_def slice_all_def RawPAN_def)
qed

lemma Validate_eq:
  assumes "pan_inv p"
  shows "Validate p = Inr (spec_Validate (RawPAN p))"
proof (cases "CHR ''*'' \<in> set (RawPAN p)")
  case True
  then show ?thesis
    by (simp add: Validate_def spec_Validate_def Index_star Let_def)
next
  case False
  define raw where "raw = RawPAN p"
  have len: "length raw = 16" and chars: "list_all pan_char raw"
    unfolding raw_def using assms by (rule pan_inv_raw)+
  from False chars have digs: "list_all is_digit raw"
    by (auto simp: raw_def list_all_iff pan_char_def)
  from len have ne: "raw \<noteq> []" by auto
  have bl: "take (length raw - 1) raw = butlast raw"
    by (simp add: butlast_conv_take)
  have la: "raw ! (length raw - 1) = last raw"
    using ne by (simp add: last_conv_nth)
  have digs_bl: "list_all is_digit (butlast raw)"
    using digs by (auto simp: list_all_iff dest: in_set_butlastD)
  have dig_la: "is_digit (last raw)"
    using digs ne by (simp add: list_all_iff)
  define acc where "acc = Validate_loop 0 0 (butlast raw)"
  define checksum :: "8 word" where "checksum = of_char (last raw) - of_char CHR ''0''"
  have lbl: "length (butlast raw) = 15"
    using len by simp
  let ?S = "sum_list (map (\<lambda>k. spec_luhn_term (0 + k) (digit_val (butlast raw ! k)))
                [0 ..< length (butlast raw)])"
  have loop: "unat acc = unat (0 :: 8 word) + ?S \<and> ?S \<le> 9 * length (butlast raw)"
    unfolding acc_def using digs_bl by (rule Validate_loop_unat) (simp add: len)
  have S: "?S = spec_luhn_sum (map digit_val (butlast raw))"
    unfolding spec_luhn_sum_def
    by (rule arg_cong [where f = sum_list], rule map_cong) simp_all
  from loop [unfolded S] have acc: "unat acc = spec_luhn_sum (map digit_val (butlast raw))"
    by simp
  from loop [unfolded S] have bound: "unat acc \<le> 135"
    by (simp add: len)
  have chk: "unat checksum = digit_val (last raw)" and chk9: "digit_val (last raw) \<le> 9"
    unfolding checksum_def using dig_la by (rule digit_byte)+
  have total: "unat (checksum + acc) = spec_luhn_sum (map digit_val (butlast raw)) + digit_val (last raw)"
    using bound chk9 by (simp add: unat_word_ariths chk acc [symmetric])
  have decide: "((checksum + acc) mod 10 \<noteq> 0) =
      ((spec_luhn_sum (map digit_val (butlast raw)) + digit_val (last raw)) mod 10 \<noteq> 0)"
    by (simp only: word8_mod10 total)
  have nostar: "CHR ''*'' \<notin> set raw"
    using False by (simp add: raw_def)
  have "Validate p =
     (if (checksum + acc) mod 10 \<noteq> 0 then Inr (Some ErrValidate) else Inr None)"
    using False ne bl la
    by (simp add: Validate_def Index_star Let_def raw_def [symmetric] acc_def checksum_def)
  also have "\<dots> = Inr (spec_Validate raw)"
    unfolding decide using nostar by (simp add: spec_Validate_def)
  finally show ?thesis by (simp only: raw_def)
qed

section \<open>The accessors on a PAN\<close>

text \<open>
  On a PAN that satisfies the invariant every slice expression of the accessors is in
  range: none of them panics.
\<close>

lemma accessors_do_not_panic:
  assumes "pan_inv p"
  shows "Checksum p = Inr [last (at3 (pan p))]"
    and "First6 p = Inr (at0 (pan p) @ take 2 (at1 (pan p)))"
    and "FullFirst6 p = Inr (at0 (pan p) @ ''-'' @ take 2 (at1 (pan p)) @ ''**-****-****'')"
    and "RawMasked p = Inr (at0 (pan p) @ take 2 (at1 (pan p)) @ ''******'' @ at3 (pan p))"
    and "Masked p = Inr (at0 (pan p) @ ''-'' @ take 2 (at1 (pan p)) @ ''**-****-'' @ at3 (pan p))"
proof -
  from assms have l1: "length (at1 (pan p)) = 4" and l3: "length (at3 (pan p)) = 4"
    by (simp_all add: pan_inv_def slice_all_def)
  from l3 obtain a b c d where s3: "at3 (pan p) = [a, b, c, d]"
    by (auto simp: length_Suc_conv numeral_eq_Suc)
  show "Checksum p = Inr [last (at3 (pan p))]"
    by (simp add: Checksum_def slice_from_def s3)
  show f6: "First6 p = Inr (at0 (pan p) @ take 2 (at1 (pan p)))"
    using l1 by (simp add: First6_def slice_to_def)
  show "FullFirst6 p = Inr (at0 (pan p) @ ''-'' @ take 2 (at1 (pan p)) @ ''**-****-****'')"
    using l1 by (simp add: FullFirst6_def slice_to_def)
  show "RawMasked p = Inr (at0 (pan p) @ take 2 (at1 (pan p)) @ ''******'' @ at3 (pan p))"
    by (simp add: RawMasked_def f6 Last4_def)
  show "Masked p = Inr (at0 (pan p) @ ''-'' @ take 2 (at1 (pan p)) @ ''**-****-'' @ at3 (pan p))"
    using l1 by (simp add: Masked_def slice_to_def)
qed

section \<open>The claims\<close>

text \<open>
  C1. For every PAN \<open>p\<close> (four sections of four characters over digits and the mask
  character), \<^verbatim>\<open>Validate\<close> does not panic and returns what the specification describes:
  \<^verbatim>\<open>ErrValidateMasked\<close> exactly when the 16 characters contain a mask character; otherwise
  \<^verbatim>\<open>nil\<close> when the Luhn sum of the first 15 digits (multiplier 1 at even index, 2 at odd
  index, 9 subtracted from a doubled digit above 9) plus the last digit is divisible by 10,
  and \<^verbatim>\<open>ErrValidate\<close> when it is not. The byte arithmetic of the source never wraps
  around on such input.
\<close>

theorem Validate_spec:
  "pan_inv p \<Longrightarrow>
   Validate p = Inr (spec_Validate (RawPAN p)) \<and>
   ((Validate p = Inr (Some ErrValidateMasked)) = (CHR ''*'' \<in> set (RawPAN p)))"
  by (simp add: Validate_eq spec_Validate_def)

theorem Validate_spec_witness:
  "pan_inv \<lparr>pan = Array4 ''0000'' ''0000'' ''0000'' ''0108'', typ = UnknownCardType\<rparr> \<and>
   Validate \<lparr>pan = Array4 ''0000'' ''0000'' ''0000'' ''0108'', typ = UnknownCardType\<rparr> = Inr None \<and>
   pan_inv \<lparr>pan = Array4 ''0000'' ''0000'' ''0000'' ''0001'', typ = UnknownCardType\<rparr> \<and>
   Validate \<lparr>pan = Array4 ''0000'' ''0000'' ''0000'' ''0001'', typ = UnknownCardType\<rparr>
     = Inr (Some ErrValidate) \<and>
   pan_inv \<lparr>pan = Array4 ''0000'' ''0000'' ''0000'' ''00*0'', typ = UnknownCardType\<rparr> \<and>
   Validate \<lparr>pan = Array4 ''0000'' ''0000'' ''0000'' ''00*0'', typ = UnknownCardType\<rparr>
     = Inr (Some ErrValidateMasked)"
proof -
  have a: "pan_inv \<lparr>pan = Array4 ''0000'' ''0000'' ''0000'' ''0108'', typ = UnknownCardType\<rparr>"
    by code_simp
  have b: "pan_inv \<lparr>pan = Array4 ''0000'' ''0000'' ''0000'' ''0001'', typ = UnknownCardType\<rparr>"
    by code_simp
  have c: "pan_inv \<lparr>pan = Array4 ''0000'' ''0000'' ''0000'' ''00*0'', typ = UnknownCardType\<rparr>"
    by code_simp
  have sa: "spec_Validate (RawPAN \<lparr>pan = Array4 ''0000'' ''0000'' ''0000'' ''0108'', typ = UnknownCardType\<rparr>) = None"
    by code_simp
  have sb: "spec_Validate (RawPAN \<lparr>pan = Array4 ''0000'' ''0000'' ''0000'' ''0001'', typ = UnknownCardType\<rparr>) = Some ErrValidate"
    by code_simp
  have sc: "spec_Validate (RawPAN \<lparr>pan = Array4 ''0000'' ''0000'' ''0000'' ''00*0'', typ = UnknownCardType\<rparr>) = Some ErrValidateMasked"
    by code_simp
  show ?thesis
    using Validate_spec [OF a] Validate_spec [OF b] Validate_spec [OF c] a b c
    by (simp only: sa sb sc)
qed

text \<open>
  C2. The claim asks for MasterCard on every first section from 2221 to 2720. The pattern
  \<^verbatim>\<open>reMaster\<close> lists 2221-2229, 2230-2299, 2700-2719 and 2720, and has no alternative for
  2300-2699, although the comment above it reads \<^verbatim>\<open>51-55, 2221-2720\<close>. So the raw PANs
  \<^verbatim>\<open>2300000000000000\<close> and \<^verbatim>\<open>2699999999999999\<close> are classified as unknown.
\<close>

theorem MasterCard_range_gap:
  "map_sum id CardType_of (FromRaw ''2300000000000000'') = Inr UnknownCardType \<and>
   map_sum id CardType_of (FromRaw ''2699999999999999'') = Inr UnknownCardType"
  by code_simp

text \<open>
  The boundaries of the range behave as the claim says: 2221, 2299, 2700 and 2720 are
  MasterCard, 2220 and 2721 are unknown.
\<close>

lemma MasterCard_range_edges:
  "map (\<lambda>s. map_sum id CardType_of (FromRaw (s @ ''000000000000'')))
     [''2220'', ''2221'', ''2299'', ''2700'', ''2720'', ''2721'']
   = [Inr UnknownCardType, Inr MasterCard, Inr MasterCard, Inr MasterCard, Inr MasterCard,
      Inr UnknownCardType]"
  by code_simp

text \<open>
  C3. \<^verbatim>\<open>FromSlice\<close> succeeds exactly when the list has at most four fragments, each of at
  most four characters over \<open>[0-9*]\<close>; its only error is \<^verbatim>\<open>ErrSection\<close>; on success
  the sections are the fragments, the list padded with empty fragments to four entries and
  each fragment padded on the right with mask characters to length four;
  \<^verbatim>\<open>FromPart\<close> is the same function; and the empty list gives the PAN
  \<^verbatim>\<open>****-****-****-****\<close>.
\<close>

theorem FromSlice_spec:
  "((\<exists>p. FromSlice arr = Inr p) = (length arr \<le> 4 \<and> list_all spec_section_ok arr)) \<and>
   ((\<exists>p. FromSlice arr = Inr p) \<or> FromSlice arr = Inl ErrSection) \<and>
   (\<forall>p. FromSlice arr = Inr p \<longrightarrow>
      slice_all (pan p) = spec_sections arr \<and>
      length (slice_all (pan p)) = 4 \<and>
      list_all (\<lambda>s. length s = 4) (slice_all (pan p))) \<and>
   FromPart arr = FromSlice arr \<and>
   map_sum id PAN (FromSlice []) = Inr ''****-****-****-****''"
proof (intro conjI allI impI)
  show "(\<exists>p. FromSlice arr = Inr p) = (length arr \<le> 4 \<and> list_all spec_section_ok arr)"
    by (simp add: FromSlice_eq)
  show "(\<exists>p. FromSlice arr = Inr p) \<or> FromSlice arr = Inl ErrSection"
    by (simp add: FromSlice_eq)
  show "FromPart arr = FromSlice arr"
    by (simp add: FromPart_def)
  show "map_sum id PAN (FromSlice []) = Inr ''****-****-****-****''"
    by code_simp
next
  fix p assume ok: "FromSlice arr = Inr p"
  then show eq: "slice_all (pan p) = spec_sections arr"
    by (rule FromSlice_Inr(1))
  from ok have "pan_inv p" by (rule FromSlice_inv)
  then show "length (slice_all (pan p)) = 4"
    and "list_all (\<lambda>s. length s = 4) (slice_all (pan p))"
    by (simp_all add: pan_inv_def list_all_iff)
qed

theorem FromSlice_spec_witness:
  "FromSlice [''12'', ''3*''] = Inr \<lparr>pan = Array4 ''12**'' ''3***'' ''****'' ''****'', typ = UnknownCardType\<rparr> \<and>
   slice_all (pan \<lparr>pan = Array4 ''12**'' ''3***'' ''****'' ''****'', typ = UnknownCardType\<rparr>)
     = spec_sections [''12'', ''3*''] \<and>
   spec_sections [''12'', ''3*''] = [''12**'', ''3***'', ''****'', ''****''] \<and>
   FromSlice [''12345''] = Inl ErrSection \<and>
   \<not> spec_section_ok ''12345''"
proof -
  have e: "FromSlice [''12'', ''3*''] = Inr \<lparr>pan = Array4 ''12**'' ''3***'' ''****'' ''****'', typ = UnknownCardType\<rparr>"
    by code_simp
  have s: "spec_sections [''12'', ''3*''] = [''12**'', ''3***'', ''****'', ''****'']"
    by code_simp
  have n: "\<not> spec_section_ok ''12345''"
    by code_simp
  have f: "FromSlice [''12345''] = Inl ErrSection"
    using FromSlice_spec [of "[''12345'']"] n by auto
  show ?thesis
    using FromSlice_spec [of "[''12'', ''3*'']"] e s n f by simp
qed

text \<open>
  C4. \<^verbatim>\<open>FromRaw\<close> returns \<^verbatim>\<open>ErrRaw\<close> for every string whose length is not 16, whatever
  its characters; for a string of length 16 with a character outside \<open>[0-9*]\<close> it returns
  \<^verbatim>\<open>ErrSection\<close>; for a string of length 16 over \<open>[0-9*]\<close> it succeeds, and the sections
  are \<^verbatim>\<open>s[0:4]\<close>, \<^verbatim>\<open>s[4:8]\<close>, \<^verbatim>\<open>s[8:12]\<close> and \<^verbatim>\<open>s[12:16]\<close>.
\<close>

theorem FromRaw_spec:
  "(length s \<noteq> 16 \<longrightarrow> FromRaw s = Inl ErrRaw) \<and>
   (length s = 16 \<and> \<not> list_all pan_char s \<longrightarrow> FromRaw s = Inl ErrSection) \<and>
   (length s = 16 \<and> list_all pan_char s \<longrightarrow>
      (\<exists>p. FromRaw s = Inr p \<and>
           slice_all (pan p) = [take 4 s, take 4 (drop 4 s), take 4 (drop 8 s), take 4 (drop 12 s)]))"
  by (simp add: FromRaw_eq slice_all_def)

theorem FromRaw_spec_witness:
  "length ''1234a'' \<noteq> 16 \<and> FromRaw ''1234a'' = Inl ErrRaw \<and>
   length ''123456789012345a'' = 16 \<and> \<not> list_all pan_char ''123456789012345a'' \<and>
   FromRaw ''123456789012345a'' = Inl ErrSection \<and>
   length ''1234********3456'' = 16 \<and> list_all pan_char ''1234********3456'' \<and>
   (\<exists>p. FromRaw ''1234********3456'' = Inr p \<and>
        slice_all (pan p) = [''1234'', ''****'', ''****'', ''3456''])"
proof -
  have a: "\<not> list_all pan_char ''123456789012345a''" by code_simp
  have b: "list_all pan_char ''1234********3456''" by code_simp
  show ?thesis
    using FromRaw_spec [of "''1234a''"] FromRaw_spec [of "''123456789012345a''"]
      FromRaw_spec [of "''1234********3456''"] a b
    by simp
qed

text \<open>
  C5, as the claim states it, fails: \<^verbatim>\<open>FromMasked\<close> hands its four sections to
  \<^verbatim>\<open>FromPart\<close>, so arguments of the right lengths with a character outside \<open>[0-9*]\<close>
  fail as well, and with \<^verbatim>\<open>ErrSection\<close>, not \<^verbatim>\<open>ErrMasked\<close>.
\<close>

theorem FromMasked_counterexample:
  "length ''12345a'' = 6 \<and> length ''3456'' = 4 \<and> FromMasked ''12345a'' ''3456'' = Inl ErrSection"
  by code_simp

text \<open>
  C5, amended. \<^verbatim>\<open>FromMasked\<close> returns \<^verbatim>\<open>ErrMasked\<close> exactly when the first argument
  is not 6 or the second not 4 characters long; with both lengths right it returns
  \<^verbatim>\<open>ErrSection\<close> exactly when one of the two holds a character outside \<open>[0-9*]\<close>, and
  succeeds otherwise; it has no other error. On success the sections are
  \<^verbatim>\<open>first6[0:4]\<close>, \<^verbatim>\<open>first6[4:6] + "**"\<close>, \<^verbatim>\<open>"****"\<close> and \<^verbatim>\<open>last4\<close>, so that
  \<^verbatim>\<open>RawPAN\<close> is \<^verbatim>\<open>first6 + "******" + last4\<close>.
\<close>

theorem FromMasked_amended:
  "((FromMasked first6 last4 = Inl ErrMasked) = (length first6 \<noteq> 6 \<or> length last4 \<noteq> 4)) \<and>
   ((FromMasked first6 last4 = Inl ErrSection) =
      (length first6 = 6 \<and> length last4 = 4 \<and> \<not> list_all pan_char (first6 @ last4))) \<and>
   ((\<exists>p. FromMasked first6 last4 = Inr p) =
      (length first6 = 6 \<and> length last4 = 4 \<and> list_all pan_char (first6 @ last4))) \<and>
   (\<forall>e. FromMasked first6 last4 = Inl e \<longrightarrow> e = ErrMasked \<or> e = ErrSection) \<and>
   (\<forall>p. FromMasked first6 last4 = Inr p \<longrightarrow>
      slice_all (pan p) = [take 4 first6, drop 4 first6 @ ''**'', ''****'', last4] \<and>
      RawPAN p = first6 @ ''******'' @ last4)"
proof -
  have raw: "take 4 first6 @ drop 4 first6 @ ''**'' @ ''****'' @ last4 = first6 @ ''******'' @ last4"
    by (metis append.assoc append_take_drop_id append_Cons append_Nil)
  show ?thesis
    using raw by (auto simp: FromMasked_eq slice_all_def RawPAN_def split: if_splits)
qed

theorem FromMasked_amended_witness:
  "(\<exists>p. FromMasked ''123456'' ''3456'' = Inr p \<and>
        slice_all (pan p) = [''1234'', ''56**'', ''****'', ''3456''] \<and>
        RawPAN p = ''123456******3456'') \<and>
   FromMasked ''12345'' ''3456'' = Inl ErrMasked \<and>
   FromMasked ''12345a'' ''3456'' = Inl ErrSection"
proof -
  have a: "list_all pan_char (''123456'' @ ''3456'')" by code_simp
  have b: "\<not> list_all pan_char (''12345a'' @ ''3456'')" by code_simp
  have 1: "\<exists>p. FromMasked ''123456'' ''3456'' = Inr p"
    using FromMasked_amended [of "''123456''" "''3456''"] a by simp
  then obtain p where p: "FromMasked ''123456'' ''3456'' = Inr p" ..
  then have "slice_all (pan p) = [''1234'', ''56**'', ''****'', ''3456''] \<and>
        RawPAN p = ''123456******3456''"
    using FromMasked_amended [of "''123456''" "''3456''"] by simp
  with p have 2: "\<exists>p. FromMasked ''123456'' ''3456'' = Inr p \<and>
        slice_all (pan p) = [''1234'', ''56**'', ''****'', ''3456''] \<and>
        RawPAN p = ''123456******3456''" by blast
  have 3: "FromMasked ''12345'' ''3456'' = Inl ErrMasked"
    using FromMasked_amended [of "''12345''" "''3456''"] by simp
  have 4: "FromMasked ''12345a'' ''3456'' = Inl ErrSection"
    using FromMasked_amended [of "''12345a''" "''3456''"] b by simp
  from 2 3 4 show ?thesis by simp
qed

text \<open>
  C6. For every PAN \<open>p\<close> that a constructor returned and that holds no mask character,
  \<^verbatim>\<open>FromRaw(p.RawPAN())\<close> succeeds and returns a PAN equal to \<open>p\<close>: the same four
  sections and the same card type.
\<close>

theorem FromRaw_RawPAN_roundtrip:
  "construct c = Inr p \<Longrightarrow> CHR ''*'' \<notin> set (RawPAN p) \<Longrightarrow> FromRaw (RawPAN p) = Inr p"
proof -
  assume c: "construct c = Inr p"
  then have inv: "pan_inv p" and t: "typ p = cardType (pan p)"
    using construct_inv by blast+
  obtain a b c d where pn: "pan p = Array4 a b c d"
    by (cases "pan p")
  from inv pn have l: "length a = 4" "length b = 4" "length c = 4" "length d = 4"
    and ch: "list_all pan_char a" "list_all pan_char b" "list_all pan_char c" "list_all pan_char d"
    by (simp_all add: pan_inv_def slice_all_def)
  have raw: "RawPAN p = a @ b @ c @ d"
    by (simp add: RawPAN_def slice_all_def pn)
  have "FromRaw (RawPAN p) = Inr \<lparr>pan = Array4 a b c d, typ = cardType (Array4 a b c d)\<rparr>"
    using l ch by (simp add: FromRaw_eq raw)
  also have "\<lparr>pan = Array4 a b c d, typ = cardType (Array4 a b c d)\<rparr> = p"
    using pn t by simp
  finally show ?thesis .
qed

theorem FromRaw_RawPAN_roundtrip_witness:
  "construct (CallFromSlice [''4111'', ''1111'', ''1111'', ''1111''])
     = Inr \<lparr>pan = Array4 ''4111'' ''1111'' ''1111'' ''1111'', typ = VISACard\<rparr> \<and>
   CHR ''*'' \<notin> set (RawPAN \<lparr>pan = Array4 ''4111'' ''1111'' ''1111'' ''1111'', typ = VISACard\<rparr>) \<and>
   FromRaw (RawPAN \<lparr>pan = Array4 ''4111'' ''1111'' ''1111'' ''1111'', typ = VISACard\<rparr>)
     = Inr \<lparr>pan = Array4 ''4111'' ''1111'' ''1111'' ''1111'', typ = VISACard\<rparr>"
proof -
  have a: "construct (CallFromSlice [''4111'', ''1111'', ''1111'', ''1111''])
     = Inr \<lparr>pan = Array4 ''4111'' ''1111'' ''1111'' ''1111'', typ = VISACard\<rparr>"
    by code_simp
  have b: "CHR ''*'' \<notin> set (RawPAN \<lparr>pan = Array4 ''4111'' ''1111'' ''1111'' ''1111'', typ = VISACard\<rparr>)"
    by code_simp
  show ?thesis
    using FromRaw_RawPAN_roundtrip [OF a b] a b by simp
qed

text \<open>
  C7, as the claim states it, fails in its last part: the first section \<^verbatim>\<open>1234\<close> does
  not begin with 4, so no pattern matches and the card type is not VISA.
\<close>

theorem sample_counterexample:
  "map_sum id CardType_of (FromRaw ''1234567890123456'') \<noteq> Inr VISACard"
  by code_simp

text \<open>
  C7, amended. \<^verbatim>\<open>FromRaw("1234567890123456")\<close> succeeds; of the resulting PAN,
  \<^verbatim>\<open>PAN()\<close> is \<^verbatim>\<open>1234-5678-9012-3456\<close>, \<^verbatim>\<open>Masked()\<close> is \<^verbatim>\<open>1234-56**-****-3456\<close>,
  \<^verbatim>\<open>Checksum()\<close> is \<^verbatim>\<open>6\<close>, and \<^verbatim>\<open>CardType()\<close> is \<^verbatim>\<open>UnknownCardType\<close>.
\<close>

theorem sample_amended:
  "map_sum id PAN (FromRaw ''1234567890123456'') = Inr ''1234-5678-9012-3456'' \<and>
   map_sum id Masked (FromRaw ''1234567890123456'') = Inr (Inr ''1234-56**-****-3456'') \<and>
   map_sum id Checksum (FromRaw ''1234567890123456'') = Inr (Inr ''6'') \<and>
   map_sum id CardType_of (FromRaw ''1234567890123456'') = Inr UnknownCardType"
  by code_simp

text \<open>
  C8. Every PAN that one of the five constructors returns without error has exactly four
  sections, each of length four, each over digits and the mask character. The accessors
  are functions of the PAN that return a value only: none of them assigns to a field in
  the source, so none can break the invariant.
\<close>

theorem constructors_establish_invariant:
  "construct c = Inr p \<Longrightarrow> pan_inv p"
  by (simp add: construct_inv)

theorem constructors_establish_invariant_witness:
  "construct (CallFromMasked ''123456'' ''3456'')
     = Inr \<lparr>pan = Array4 ''1234'' ''56**'' ''****'' ''3456'', typ = UnknownCardType\<rparr> \<and>
   pan_inv \<lparr>pan = Array4 ''1234'' ''56**'' ''****'' ''3456'', typ = UnknownCardType\<rparr>"
proof -
  have e: "construct (CallFromMasked ''123456'' ''3456'')
     = Inr \<lparr>pan = Array4 ''1234'' ''56**'' ''****'' ''3456'', typ = UnknownCardType\<rparr>"
    by code_simp
  show ?thesis
    using constructors_establish_invariant [OF e] e by simp
qed

text \<open>
  C9. Two PANs returned by constructors (the same or different ones) that agree on
  section 0 have the same card type, whatever their other sections.
\<close>

theorem CardType_depends_on_section0:
  "construct c1 = Inr p \<Longrightarrow> construct c2 = Inr q \<Longrightarrow> at0 (pan p) = at0 (pan q) \<Longrightarrow>
   CardType_of p = CardType_of q"
  using construct_inv [of c1 p] construct_inv [of c2 q]
  by (simp add: CardType_of_def cardType_def)

theorem CardType_depends_on_section0_witness:
  "construct (CallFromRaw ''4111111111111111'')
     = Inr \<lparr>pan = Array4 ''4111'' ''1111'' ''1111'' ''1111'', typ = VISACard\<rparr> \<and>
   construct (CallFromDashed ''4111-22'')
     = Inr \<lparr>pan = Array4 ''4111'' ''22**'' ''****'' ''****'', typ = VISACard\<rparr> \<and>
   CardType_of \<lparr>pan = Array4 ''4111'' ''1111'' ''1111'' ''1111'', typ = VISACard\<rparr>
     = CardType_of \<lparr>pan = Array4 ''4111'' ''22**'' ''****'' ''****'', typ = VISACard\<rparr>"
proof -
  have a: "construct (CallFromRaw ''4111111111111111'')
     = Inr \<lparr>pan = Array4 ''4111'' ''1111'' ''1111'' ''1111'', typ = VISACard\<rparr>"
    by code_simp
  have b: "construct (CallFromDashed ''4111-22'')
     = Inr \<lparr>pan = Array4 ''4111'' ''22**'' ''****'' ''****'', typ = VISACard\<rparr>"
    by code_simp
  show ?thesis
    using CardType_depends_on_section0 [OF a b] a b by simp
qed

text \<open>
  C10. \<^verbatim>\<open>FromDashed("")\<close> succeeds with the all-mask PAN
  \<^verbatim>\<open>****-****-****-****\<close>, the empty string being split into one empty fragment; and
  \<^verbatim>\<open>FromDashed\<close> of any string without dash, of at most four characters over
  \<open>[0-9*]\<close>, succeeds with that string, padded, as section 0 and three all-mask sections.
\<close>

theorem FromDashed_no_dash:
  "map_sum id PAN (FromDashed '''') = Inr ''****-****-****-****'' \<and>
   (CHR ''-'' \<notin> set s \<and> length s \<le> 4 \<and> list_all pan_char s \<longrightarrow>
      (\<exists>p. FromDashed s = Inr p \<and>
           slice_all (pan p) = [s @ replicate (4 - length s) CHR ''*'', ''****'', ''****'', ''****'']))"
proof (intro conjI impI)
  show "map_sum id PAN (FromDashed '''') = Inr ''****-****-****-****''"
    by code_simp
next
  assume a: "CHR ''-'' \<notin> set s \<and> length s \<le> 4 \<and> list_all pan_char s"
  then have d: "FromDashed s = FromSlice [s]"
    by (simp add: FromDashed_def Split_no_sep)
  from a have "\<exists>p. FromSlice [s] = Inr p"
    by (simp add: FromSlice_eq spec_section_ok_def)
  then obtain p where p: "FromSlice [s] = Inr p" ..
  then have "slice_all (pan p) = spec_sections [s]"
    by (rule FromSlice_Inr(1))
  also have "\<dots> = [s @ replicate (4 - length s) CHR ''*'', ''****'', ''****'', ''****'']"
    by (simp add: spec_sections_def spec_pad_def numeral_eq_Suc)
  finally show "\<exists>p. FromDashed s = Inr p \<and>
           slice_all (pan p) = [s @ replicate (4 - length s) CHR ''*'', ''****'', ''****'', ''****'']"
    using p d by simp
qed

theorem FromDashed_no_dash_witness:
  "CHR ''-'' \<notin> set ''12'' \<and> length ''12'' \<le> 4 \<and> list_all pan_char ''12'' \<and>
   (\<exists>p. FromDashed ''12'' = Inr p \<and> slice_all (pan p) = [''12**'', ''****'', ''****'', ''****''])"
proof -
  have a: "list_all pan_char ''12''" by code_simp
  show ?thesis
    using FromDashed_no_dash [of "''12''"] a by (simp add: numeral_2_eq_2)
qed

end
